theory Spec2Isabelle
  imports Main "HOL-Library.AList"
begin

section \<open>The installer WebUI's critical error dialog (Error.jsx)\<close>

text \<open>
  The development follows \<^verbatim>\<open>ui/webui/src/components/Error.jsx\<close>: the two URL
  builders \<^verbatim>\<open>bugzillaPrefiledReportURL\<close> and \<^verbatim>\<open>addExceptionDataToReportURL\<close>,
  the component \<^verbatim>\<open>CriticalError\<close> with its report action \<^verbatim>\<open>openBZIssue\<close>, and
  \<^verbatim>\<open>errorHandlerWithContext\<close>.

  A JavaScript string is modelled by the list of the bytes of its UTF-8 encoding, so that
  \<^verbatim>\<open>+\<close> on strings is \<open>@\<close> and the URL serialiser, which works on UTF-8 bytes, reads
  the same list.
\<close>

subsection \<open>The application/x-www-form-urlencoded format of URLSearchParams\<close>

text \<open>
  \<^verbatim>\<open>URL\<close> and \<^verbatim>\<open>URLSearchParams\<close> belong to the browser, not to the repository. The
  serialiser below is the one of the URL Standard: a byte that is an ASCII letter or
  digit or one of \<^verbatim>\<open>* - . _\<close> stands for itself, a space becomes \<^verbatim>\<open>+\<close>, every other
  byte becomes \<^verbatim>\<open>%XX\<close> with upper-case hexadecimal digits; a pair is
  \<^verbatim>\<open>name=value\<close> and pairs are joined by \<^verbatim>\<open>&\<close>.
\<close>

definition urlencoded_plain :: "char \<Rightarrow> bool" where
  "urlencoded_plain c \<longleftrightarrow>
     c \<in> set ''ABCDEFGHIJKLMNOPQRSTUVWXYZabcdefghijklmnopqrstuvwxyz0123456789*-._''"

definition hex_digit :: "nat \<Rightarrow> char" where
  "hex_digit n = ''0123456789ABCDEF'' ! (n mod 16)"

definition percent_encode_byte :: "char \<Rightarrow> string" where
  "percent_encode_byte c =
     (if urlencoded_plain c then [c]
      else if c = CHR '' '' then ''+''
      else [CHR ''%'', hex_digit (of_char c div 16), hex_digit (of_char c mod 16)])"

definition urlencode :: "string \<Rightarrow> string" where
  "urlencode s = concat (map percent_encode_byte s)"

fun urlencoded_serializer :: "(string \<times> string) list \<Rightarrow> string" where
  "urlencoded_serializer [] = []"
| "urlencoded_serializer [(n, v)] = urlencode n @ CHR ''='' # urlencode v"
| "urlencoded_serializer ((n, v) # p # ps) =
     urlencode n @ CHR ''='' # urlencode v @ CHR ''&'' # urlencoded_serializer (p # ps)"

text \<open>
  The parser of the same standard, which is how a receiver (and \<^verbatim>\<open>URLSearchParams\<close>
  itself) reads a query back: split at \<^verbatim>\<open>&\<close>, skip empty pieces, split each piece at
  its first \<^verbatim>\<open>=\<close>, turn \<^verbatim>\<open>+\<close> into a space and decode \<^verbatim>\<open>%XX\<close>. It is used to say
  what a query parameter of a returned URL string "is".
\<close>

definition is_hex_digit :: "char \<Rightarrow> bool" where
  "is_hex_digit c \<longleftrightarrow> c \<in> set ''0123456789ABCDEFabcdef''"

definition hex_value :: "char \<Rightarrow> nat" where
  "hex_value c =
     (let n = of_char c in
      if n < 58 then n - 48 else if n < 71 then n - 55 else n - 87)"

fun percent_decode :: "string \<Rightarrow> string" where
  "percent_decode [] = []"
| "percent_decode (c # cs) =
     (if c = CHR ''%'' then
        (case cs of
           h # l # rest \<Rightarrow>
             if is_hex_digit h \<and> is_hex_digit l
             then char_of (16 * hex_value h + hex_value l) # percent_decode rest
             else c # percent_decode cs
         | _ \<Rightarrow> c # percent_decode cs)
      else c # percent_decode cs)"

fun split_on :: "char \<Rightarrow> string \<Rightarrow> string list" where
  "split_on d [] = [[]]"
| "split_on d (c # cs) =
     (if c = d then [] # split_on d cs
      else (case split_on d cs of [] \<Rightarrow> [[c]] | x # xs \<Rightarrow> (c # x) # xs))"

definition plus_to_space :: "string \<Rightarrow> string" where
  "plus_to_space s = map (\<lambda>c. if c = CHR ''+'' then CHR '' '' else c) s"

definition urldecode :: "string \<Rightarrow> string" where
  "urldecode s = percent_decode (plus_to_space s)"

definition parse_pair :: "string \<Rightarrow> string \<times> string" where
  "parse_pair s =
     (urldecode (takeWhile (\<lambda>c. c \<noteq> CHR ''='') s),
      urldecode (drop 1 (dropWhile (\<lambda>c. c \<noteq> CHR ''='') s)))"

definition urlencoded_parser :: "string \<Rightarrow> (string \<times> string) list" where
  "urlencoded_parser s = map parse_pair (filter (\<lambda>x. x \<noteq> []) (split_on CHR ''&'' s))"

text \<open>
  The query parameters of a URL string: the text between its first \<^verbatim>\<open>?\<close> and the
  \<^verbatim>\<open>#\<close> that starts the fragment, read by the parser above.
\<close>

definition query_params :: "string \<Rightarrow> (string \<times> string) list" where
  "query_params s =
     urlencoded_parser
       (drop 1 (dropWhile (\<lambda>c. c \<noteq> CHR ''?'') (takeWhile (\<lambda>c. c \<noteq> CHR ''#'') s)))"

subsection \<open>URL objects\<close>

text \<open>
  A \<^verbatim>\<open>URL\<close> object holds a parsed URL and the list of its \<^verbatim>\<open>searchParams\<close>.
  \<open>prefix\<close> is the serialised scheme and authority (\<^verbatim>\<open>https://bugzilla.redhat.com\<close>),
  \<open>query\<close> and \<open>fragment\<close> are absent (\<open>None\<close>) or the text after \<^verbatim>\<open>?\<close> and
  \<^verbatim>\<open>#\<close>. \<open>href\<close> is the URL serialiser.
\<close>

record url =
  prefix :: string
  pathname :: string
  searchParams :: "(string \<times> string) list"
  query :: "string option"
  fragment :: "string option"

definition href :: "url \<Rightarrow> string" where
  "href u =
     prefix u @ pathname u
       @ (case query u of None \<Rightarrow> [] | Some q \<Rightarrow> CHR ''?'' # q)
       @ (case fragment u of None \<Rightarrow> [] | Some f \<Rightarrow> CHR ''#'' # f)"

text \<open>
  \<^verbatim>\<open>url.searchParams.append(name, value)\<close> appends the pair to the list and then runs
  the update steps: the URL's query becomes the serialisation of the list, or absent if
  that is empty.
\<close>

definition searchParams_append :: "url \<Rightarrow> string \<Rightarrow> string \<Rightarrow> url" where
  "searchParams_append u n v =
     (let list = searchParams u @ [(n, v)];
          serializedQuery = urlencoded_serializer list
      in u\<lparr>searchParams := list,
            query := (if serializedQuery = [] then None else Some serializedQuery)\<rparr>)"

text \<open>
  The \<^verbatim>\<open>pathname\<close> setter of a URL with a host, for a value made of one or more plain
  segments (no dot segment, no byte the path state would percent-encode), as
  \<^verbatim>\<open>enter_bug.cgi\<close> is: the path becomes the value, with a leading slash.
\<close>

definition set_pathname :: "url \<Rightarrow> string \<Rightarrow> url" where
  "set_pathname u v = u\<lparr>pathname := (if take 1 v = ''/'' then v else CHR ''/'' # v)\<rparr>"

text \<open>
  What the parser of a \<^verbatim>\<open>URL\<close> guarantees of its result: \<^verbatim>\<open>?\<close> and \<^verbatim>\<open>#\<close> occur
  neither in the authority nor in the path (there they are percent-encoded).
\<close>

definition plain_prefix :: "url \<Rightarrow> bool" where
  "plain_prefix u \<longleftrightarrow>
     CHR ''?'' \<notin> set (prefix u @ pathname u) \<and> CHR ''#'' \<notin> set (prefix u @ pathname u)"

subsection \<open>Objects as property lists\<close>

text \<open>
  A JavaScript object whose values are strings is the list of its own enumerable
  properties in the order in which \<^verbatim>\<open>Object.keys\<close> and the spread syntax enumerate
  them; that is the order of insertion for every key that is not an array index (array
  indices come first, in ascending order). A key occurs once in an object. Defining a
  property (\<open>AList.update\<close>) replaces the value of a key that exists, where it
  stands, and adds a new key at the end.
\<close>

type_synonym js_object = "(string \<times> string) list"

definition object_spread :: "js_object \<Rightarrow> js_object" where
  "object_spread source = foldl (\<lambda>target (k, v). AList.update k v target) [] source"

definition Object_keys :: "js_object \<Rightarrow> string list" where
  "Object_keys obj = map fst obj"

definition property_get :: "js_object \<Rightarrow> string \<Rightarrow> string" where
  "property_get obj k = (case map_of obj k of Some v \<Rightarrow> v | None \<Rightarrow> ''undefined'')"

subsection \<open>bugzillaPrefiledReportURL\<close>

definition baseURL :: string where
  "baseURL = ''https://bugzilla.redhat.com''"

text \<open>
  \<^verbatim>\<open>new URL(baseURL)\<close>: the object the constructor makes of the constant
  \<^verbatim>\<open>https://bugzilla.redhat.com\<close> has the path \<^verbatim>\<open>/\<close>, no query and no fragment.
\<close>

definition new_URL_baseURL :: url where
  "new_URL_baseURL =
     \<lparr>prefix = baseURL, pathname = ''/'', searchParams = [], query = None, fragment = None\<rparr>"

definition bugzillaPrefiledReportURL :: "js_object \<Rightarrow> string" where
  "bugzillaPrefiledReportURL productQueryData =
     (let queryData = AList.update ''component'' ''anaconda'' (object_spread productQueryData);
          reportURL = new_URL_baseURL;
          reportURL = set_pathname reportURL ''enter_bug.cgi'';
          reportURL = foldl (\<lambda>u query. searchParams_append u query (property_get queryData query))
                        reportURL (Object_keys queryData)
      in href reportURL)"

subsection \<open>addExceptionDataToReportURL\<close>

text \<open>
  An exception has a name and a message and may carry \<^verbatim>\<open>contextData\<close>, an object with
  a \<^verbatim>\<open>context\<close> string; every further property lives in the record's extension.
  \<open>None\<close> is \<^verbatim>\<open>undefined\<close>.
\<close>

record contextData =
  "context" :: "string option"

record exception =
  name :: string
  message :: string
  contextData :: "contextData option"

text \<open>The optional chain \<^verbatim>\<open>exception.contextData?.context\<close>.\<close>

definition contextData_context :: "'a exception_scheme \<Rightarrow> string option" where
  "contextData_context e = (case contextData e of None \<Rightarrow> None | Some d \<Rightarrow> context d)"

text \<open>Truthiness of a string or \<^verbatim>\<open>undefined\<close>: the empty string is falsy.\<close>

definition truthy :: "string option \<Rightarrow> bool" where
  "truthy v = (case v of None \<Rightarrow> False | Some s \<Rightarrow> s \<noteq> [])"

datatype js_error = TypeError

text \<open>
  \<^verbatim>\<open>new URL(url)\<close> on a string that is not a constant is the browser's parser; it is
  the parameter \<open>URL_new\<close>, which returns the URL object or \<open>None\<close> where the
  constructor throws a \<^verbatim>\<open>TypeError\<close>. \<open>gettext\<close> is \<^verbatim>\<open>cockpit.gettext\<close>.
\<close>

definition addExceptionDataToReportURL ::
  "(string \<Rightarrow> url option) \<Rightarrow> (string \<Rightarrow> string) \<Rightarrow> string \<Rightarrow> 'a exception_scheme
     \<Rightarrow> js_error + string" where
  "addExceptionDataToReportURL URL_new gettext url e =
     (case URL_new url of
        None \<Rightarrow> Inl TypeError
      | Some newUrl \<Rightarrow>
          let ctx = (if truthy (contextData_context e)
                     then (case contextData_context e of Some c \<Rightarrow> c @ '' '' | None \<Rightarrow> ''undefined '')
                     else []);
              newUrl = searchParams_append newUrl ''short_desc''
                         (''WebUI: '' @ ctx @ name e @ '': '' @ message e);
              newUrl = searchParams_append newUrl ''comment''
                         (''Installer WebUI Critical Error:'' @ [CHR 0x0A] @ ctx @ name e @ '': ''
                            @ message e @ [CHR 0x0A, CHR 0x0A]
                            @ gettext ''Please attach the file /tmp/webui.log to the issue.'')
          in Inr (href newUrl))"

subsection \<open>CriticalError: state, rendering and event handlers\<close>

text \<open>
  The component keeps two pieces of state, \<^verbatim>\<open>logContent\<close> (\<^verbatim>\<open>undefined\<close> at first)
  and \<^verbatim>\<open>preparingReport\<close>. Its effects on the host are recorded beside them: the
  commands it spawned, whether the journal is still being read, the writes in flight
  (path and content given to \<^verbatim>\<open>cockpit.file(path).replace(content)\<close>), the host's
  files, the calls of \<^verbatim>\<open>window.open\<close> (URL, target, features) and of
  \<^verbatim>\<open>exitGui\<close>.
\<close>

record dialog =
  logContent :: "string option"
  preparingReport :: bool
  spawned :: "string list list"
  journal_pending :: bool
  replacing :: "(string \<times> string option) list"
  files :: "string \<Rightarrow> string option"
  opened :: "(string \<times> string \<times> string) list"
  exits :: nat

text \<open>
  How a promise settles. cockpit.js is not among the sources; its promises offer
  \<^verbatim>\<open>then\<close> and, after jQuery's deferred objects, \<^verbatim>\<open>always\<close>.
  \<^verbatim>\<open>p.always(f)\<close> calls \<open>f\<close> when \<open>p\<close> settles, either way, and
  \<^verbatim>\<open>q.then(g)\<close> calls \<open>g\<close> when \<open>q\<close> is fulfilled. Which promise
  \<^verbatim>\<open>p.always(f)\<close> returns decides whether \<^verbatim>\<open>p.always(f).then(g)\<close> calls \<open>g\<close>
  after \<open>p\<close> was rejected, so it is a parameter: \<open>Receiver\<close> is \<open>p\<close> itself (what
  jQuery's \<^verbatim>\<open>always\<close> returns), \<open>Derived\<close> is a new promise that is fulfilled once
  \<open>f\<close> has returned (what \<^verbatim>\<open>p.then(f, f)\<close> returns).
\<close>

datatype settled = Fulfilled | Rejected

datatype always_result = Receiver | Derived

definition always_then :: "always_result \<Rightarrow> settled \<Rightarrow> settled" where
  "always_then a outcome = (case a of Receiver \<Rightarrow> outcome | Derived \<Rightarrow> Fulfilled)"

text \<open>
  What the handlers of a rendering close over: the property \<^verbatim>\<open>reportLinkURL\<close>, the
  constant \<^verbatim>\<open>reportURL\<close> computed from it, and the promise library's \<^verbatim>\<open>always\<close>.
\<close>

record env =
  reportLinkURL :: "string option"
  reportURL :: string
  always_returns :: always_result

text \<open>
  \<^verbatim>\<open>const reportURL = addExceptionDataToReportURL(reportLinkURL, exception)\<close>: an
  absent \<^verbatim>\<open>reportLinkURL\<close> reaches \<^verbatim>\<open>new URL\<close> as the string \<^verbatim>\<open>undefined\<close>, and
  an error here is an error of the rendering.
\<close>

definition CriticalError ::
  "(string \<Rightarrow> url option) \<Rightarrow> (string \<Rightarrow> string) \<Rightarrow> always_result
     \<Rightarrow> 'a exception_scheme \<Rightarrow> string option \<Rightarrow> js_error + env" where
  "CriticalError URL_new gettext a e link =
     (case addExceptionDataToReportURL URL_new gettext
             (case link of None \<Rightarrow> ''undefined'' | Some l \<Rightarrow> l) e of
        Inl err \<Rightarrow> Inl err
      | Inr r \<Rightarrow> Inr \<lparr>reportLinkURL = link, reportURL = r, always_returns = a\<rparr>)"

text \<open>
  The first rendering and the effect \<^verbatim>\<open>useEffect(..., [])\<close>, which runs once:
  \<^verbatim>\<open>cockpit.spawn(["journalctl", "-a"])\<close>. \<open>fs\<close> is the host's file system.
\<close>

definition mount :: "(string \<Rightarrow> string option) \<Rightarrow> dialog" where
  "mount fs =
     \<lparr>logContent = None, preparingReport = False,
      spawned = [[''journalctl'', ''-a'']], journal_pending = True,
      replacing = [], files = fs, opened = [], exits = 0\<rparr>"

text \<open>
  The part of the rendered dialog that depends on the state: the report button
  (\<^verbatim>\<open>isLoading\<close>, \<^verbatim>\<open>isDisabled\<close>, its label) and the text area (\<^verbatim>\<open>value\<close>,
  \<^verbatim>\<open>isDisabled\<close>). The label is the message given to \<^verbatim>\<open>gettext\<close>. The report
  button is rendered only for a truthy \<^verbatim>\<open>reportLinkURL\<close>.
\<close>

record rendered =
  report_isLoading :: bool
  report_isDisabled :: bool
  report_label :: string
  textarea_value :: "string option"
  textarea_isDisabled :: bool

definition render :: "dialog \<Rightarrow> rendered" where
  "render s =
     \<lparr>report_isLoading = preparingReport s,
      report_isDisabled = (logContent s = None \<or> preparingReport s),
      report_label = (if preparingReport s then ''Preparing report'' else ''Report issue''),
      textarea_value = logContent s,
      textarea_isDisabled = (logContent s = None \<or> preparingReport s)\<rparr>"

definition report_rendered :: "env \<Rightarrow> bool" where
  "report_rendered c = truthy (reportLinkURL c)"

text \<open>
  \<^verbatim>\<open>openBZIssue\<close> up to the call of \<^verbatim>\<open>replace\<close>: the write of the current
  \<^verbatim>\<open>logContent\<close> to \<^verbatim>\<open>/tmp/webui.log\<close> is in flight.
\<close>

definition openBZIssue :: "dialog \<Rightarrow> dialog" where
  "openBZIssue s =
     s\<lparr>preparingReport := True,
       replacing := replacing s @ [(''/tmp/webui.log'', logContent s)]\<rparr>"

text \<open>
  The rest of \<^verbatim>\<open>openBZIssue\<close>, run when the write of \<open>content\<close> to \<open>path\<close>
  settles. A fulfilled \<^verbatim>\<open>replace\<close> has made \<open>content\<close> the whole content of the file,
  a rejected one has left the files as they were. Then the callback of \<^verbatim>\<open>always\<close>
  runs, and the callback of \<^verbatim>\<open>then\<close> if the promise it was attached to is
  fulfilled. (A write of \<^verbatim>\<open>undefined\<close> is in flight only after a click that came before
  the journal. What cockpit does to the file then is not in the sources: the model
  leaves the files as they were, and no statement below speaks of the file in that case.)
\<close>

definition replace_settled :: "env \<Rightarrow> settled \<Rightarrow> string \<Rightarrow> string option \<Rightarrow> dialog \<Rightarrow> dialog" where
  "replace_settled c outcome path content s =
     (let s = (case (outcome, content) of
                 (Fulfilled, Some body) \<Rightarrow> s\<lparr>files := (files s)(path \<mapsto> body)\<rparr>
               | _ \<Rightarrow> s);
          s = s\<lparr>preparingReport := False\<rparr>;
          s = (if always_then (always_returns c) outcome = Fulfilled
               then s\<lparr>opened := opened s @ [(reportURL c, ''_blank'', ''noopener,noreferer'')]\<rparr>
               else s)
      in s)"

text \<open>
  The events of the dialog. Each handler runs to its end and the component is rendered
  again before the next event. The text area is a form control, and a disabled one
  fires no change event. The report button is rendered as a link
  (\<^verbatim>\<open>component="a"\<close>) when \<^verbatim>\<open>reportLinkURL\<close> is truthy; \<^verbatim>\<open>isDisabled\<close> is a
  property handed to the toolkit, and the handler
  \<^verbatim>\<open>onClick={() => openBZIssue(reportURL)}\<close> tests nothing: \<open>ReportClick\<close> is a
  run of that handler, whenever it happens.
\<close>

datatype event =
    JournalFulfilled string
  | JournalRejected
  | TextAreaChange string
  | ReportClick
  | ReplaceSettled settled
  | ExitClick

fun step :: "env \<Rightarrow> dialog \<Rightarrow> event \<Rightarrow> dialog" where
  "step c s (JournalFulfilled content) =
     (if journal_pending s then s\<lparr>journal_pending := False, logContent := Some content\<rparr> else s)"
| "step c s JournalRejected =
     (if journal_pending s then s\<lparr>journal_pending := False\<rparr> else s)"
| "step c s (TextAreaChange v) =
     (if textarea_isDisabled (render s) then s else s\<lparr>logContent := Some v\<rparr>)"
| "step c s ReportClick = (if report_rendered c then openBZIssue s else s)"
| "step c s (ReplaceSettled outcome) =
     (case replacing s of
        [] \<Rightarrow> s
      | (path, content) # rest \<Rightarrow> replace_settled c outcome path content (s\<lparr>replacing := rest\<rparr>))"
| "step c s ExitClick = s\<lparr>exits := Suc (exits s)\<rparr>"

definition run :: "env \<Rightarrow> (string \<Rightarrow> string option) \<Rightarrow> event list \<Rightarrow> dialog" where
  "run c fs evs = foldl (step c) (mount fs) evs"

text \<open>
  A toolkit that honours \<^verbatim>\<open>isDisabled\<close> lets the click handler run only while the
  report control is enabled. \<open>delivered\<close> says so of one event in one state,
  \<open>honoured\<close> of a list of events from a state on, and \<open>enabled_clicks\<close> of a run
  from the mount. Nothing in \<open>step\<close> depends on it.
\<close>

fun delivered :: "env \<Rightarrow> dialog \<Rightarrow> event \<Rightarrow> bool" where
  "delivered c s ReportClick = (report_rendered c \<and> \<not> report_isDisabled (render s))"
| "delivered c s ev = True"

fun honoured :: "env \<Rightarrow> dialog \<Rightarrow> event list \<Rightarrow> bool" where
  "honoured c s [] = True"
| "honoured c s (ev # evs) = (delivered c s ev \<and> honoured c (step c s ev) evs)"

definition enabled_clicks :: "env \<Rightarrow> (string \<Rightarrow> string option) \<Rightarrow> event list \<Rightarrow> bool" where
  "enabled_clicks c fs evs = honoured c (mount fs) evs"

text \<open>
  What holds of every state the dialog reaches from its mount: every write in flight
  goes to \<^verbatim>\<open>/tmp/webui.log\<close>, and no other file has changed.
\<close>

definition writes_invariant :: "(string \<Rightarrow> string option) \<Rightarrow> dialog \<Rightarrow> bool" where
  "writes_invariant fs s \<longleftrightarrow>
     (\<forall>w \<in> set (replacing s). fst w = ''/tmp/webui.log'') \<and>
     (\<forall>path. path \<noteq> ''/tmp/webui.log'' \<longrightarrow> files s path = fs path)"

text \<open>
  What holds in addition where the click handler ran only on the enabled control: a
  report is being prepared exactly while a write is in flight, there is at most one,
  and it was clicked with a log to write.
\<close>

definition enabled_invariant :: "dialog \<Rightarrow> bool" where
  "enabled_invariant s \<longleftrightarrow>
     (preparingReport s \<longleftrightarrow> replacing s \<noteq> []) \<and>
     length (replacing s) \<le> 1 \<and>
     (preparingReport s \<longrightarrow> logContent s \<noteq> None) \<and>
     (\<forall>w \<in> set (replacing s). snd w \<noteq> None)"

text \<open>
  The features argument of \<^verbatim>\<open>window.open\<close> is a comma-separated list of names; a
  name the browser does not know has no effect.
\<close>

definition window_features :: "string \<Rightarrow> string list" where
  "window_features features = split_on CHR '','' features"

subsection \<open>errorHandlerWithContext\<close>

text \<open>
  Exceptions are objects: a reference (a number) into a heap. A JavaScript function that
  takes an exception is a function of the reference that changes the state of the
  program; the heap is one field of that state, and whatever else a handler may touch
  is the record's extension.
\<close>

record 'a js_state =
  heap :: "nat \<Rightarrow> 'a exception_scheme"

definition errorHandlerWithContext ::
  "contextData option \<Rightarrow> (nat \<Rightarrow> ('a, 'b) js_state_scheme \<Rightarrow> ('a, 'b) js_state_scheme)
     \<Rightarrow> nat \<Rightarrow> ('a, 'b) js_state_scheme \<Rightarrow> ('a, 'b) js_state_scheme" where
  "errorHandlerWithContext contextData' handler =
     (\<lambda>exception \<sigma>.
        handler exception
          (\<sigma>\<lparr>heap := (heap \<sigma>)(exception := (heap \<sigma> exception)\<lparr>contextData := contextData'\<rparr>)\<rparr>))"

text \<open>
  A state that also keeps the list of the exceptions a handler was called with, and the
  handler that records its call there.
\<close>

record 'a traced_state = "'a js_state" +
  calls :: "nat list"

definition record_call :: "nat \<Rightarrow> ('a, 'b) traced_state_scheme \<Rightarrow> ('a, 'b) traced_state_scheme" where
  "record_call r \<sigma> = \<sigma>\<lparr>calls := calls \<sigma> @ [r]\<rparr>"

section \<open>Properties of the URL format\<close>

lemma nat_less_16_cases:
  "n < 16 \<Longrightarrow> n \<in> {0, 1, 2, 3, 4, 5, 6, 7, 8, 9, 10, 11, 12, 13, 14, 15 :: nat}"
  by simp arith

lemma hex_digit_cases:
  "n < 16 \<Longrightarrow> is_hex_digit (hex_digit n) \<and> hex_value (hex_digit n) = n
     \<and> hex_digit n \<notin> {CHR ''+'', CHR ''&'', CHR ''='', CHR ''#''}"
  by (drule nat_less_16_cases) (auto simp: hex_digit_def is_hex_digit_def hex_value_def)

lemma plain_not_special:
  "urlencoded_plain c \<Longrightarrow> c \<notin> {CHR ''%'', CHR ''+'', CHR ''&'', CHR ''='', CHR ''#''}"
  by (auto simp: urlencoded_plain_def)

lemma of_char_div_16: "of_char (c::char) div 16 < (16::nat)"
proof -
  have "of_char c < (256::nat)" by simp
  then show ?thesis by (simp add: less_mult_imp_div_less)
qed

lemma urldecode_encode_byte:
  "percent_decode (plus_to_space (percent_encode_byte c) @ plus_to_space rest)
     = c # percent_decode (plus_to_space rest)"
  using hex_digit_cases[OF of_char_div_16, of c] hex_digit_cases[of "of_char c mod 16"]
    plain_not_special[of c]
  by (auto simp: percent_encode_byte_def plus_to_space_def)

lemma plus_to_space_append: "plus_to_space (a @ b) = plus_to_space a @ plus_to_space b"
  by (simp add: plus_to_space_def)

lemma urldecode_urlencode: "urldecode (urlencode s) = s"
proof (induction s)
  case Nil
  show ?case by (simp add: urldecode_def urlencode_def plus_to_space_def)
next
  case (Cons c s)
  have "urldecode (urlencode (c # s)) =
        percent_decode (plus_to_space (percent_encode_byte c) @ plus_to_space (urlencode s))"
    by (simp add: urldecode_def urlencode_def plus_to_space_append)
  also have "\<dots> = c # urldecode (urlencode s)"
    by (simp only: urldecode_encode_byte urldecode_def)
  finally show ?case using Cons.IH by simp
qed

lemma percent_encode_byte_no_sep:
  "d \<in> {CHR ''&'', CHR ''='', CHR ''#''} \<Longrightarrow> d \<notin> set (percent_encode_byte c)"
  using hex_digit_cases[OF of_char_div_16, of c] hex_digit_cases[of "of_char c mod 16"]
    plain_not_special[of c]
  by (auto simp: percent_encode_byte_def)

lemma urlencode_no_sep:
  "d \<in> {CHR ''&'', CHR ''='', CHR ''#''} \<Longrightarrow> d \<notin> set (urlencode s)"
  using percent_encode_byte_no_sep[of d] by (induction s) (auto simp: urlencode_def)

lemma takeWhile_until: "d \<notin> set a \<Longrightarrow> takeWhile (\<lambda>c. c \<noteq> d) (a @ d # b) = a"
  by (induction a) auto

lemma dropWhile_until: "d \<notin> set a \<Longrightarrow> dropWhile (\<lambda>c. c \<noteq> d) (a @ d # b) = d # b"
  by (induction a) auto

lemma parse_pair_encoded: "parse_pair (urlencode n @ CHR ''='' # urlencode v) = (n, v)"
  by (simp add: parse_pair_def urlencode_no_sep takeWhile_until dropWhile_until
      urldecode_urlencode)

lemma split_on_no_sep: "d \<notin> set a \<Longrightarrow> split_on d a = [a]"
  by (induction a) auto

lemma split_on_append: "d \<notin> set a \<Longrightarrow> split_on d (a @ d # b) = a # split_on d b"
  by (induction a) auto

lemma pair_no_amp: "CHR ''&'' \<notin> set (urlencode n @ CHR ''='' # urlencode v)"
  by (simp add: urlencode_no_sep)

lemma urlencoded_parser_serializer: "urlencoded_parser (urlencoded_serializer ps) = ps"
proof (induction ps rule: urlencoded_serializer.induct)
  case 1
  show ?case by (simp add: urlencoded_parser_def)
next
  case (2 n v)
  have "split_on CHR ''&'' (urlencode n @ CHR ''='' # urlencode v)
        = [urlencode n @ CHR ''='' # urlencode v]"
    by (rule split_on_no_sep) (rule pair_no_amp)
  then show ?case by (simp add: urlencoded_parser_def parse_pair_encoded)
next
  case (3 n v p ps)
  have "split_on CHR ''&''
          ((urlencode n @ CHR ''='' # urlencode v) @ CHR ''&'' # urlencoded_serializer (p # ps))
        = (urlencode n @ CHR ''='' # urlencode v)
            # split_on CHR ''&'' (urlencoded_serializer (p # ps))"
    by (rule split_on_append) (rule pair_no_amp)
  then have "urlencoded_parser (urlencoded_serializer ((n, v) # p # ps))
        = parse_pair (urlencode n @ CHR ''='' # urlencode v)
            # urlencoded_parser (urlencoded_serializer (p # ps))"
    by (simp add: urlencoded_parser_def)
  then show ?case using "3.IH" by (simp add: parse_pair_encoded)
qed

lemma urlencoded_serializer_no_hash: "CHR ''#'' \<notin> set (urlencoded_serializer ps)"
  by (induction ps rule: urlencoded_serializer.induct) (simp_all add: urlencode_no_sep)

lemma urlencoded_serializer_nonempty: "ps \<noteq> [] \<Longrightarrow> urlencoded_serializer ps \<noteq> []"
  by (cases ps rule: urlencoded_serializer.cases) simp_all

lemma query_params_href:
  assumes "plain_prefix u" and "query u = Some (urlencoded_serializer ps)"
  shows "query_params (href u) = ps"
proof -
  let ?a = "prefix u @ pathname u"
  let ?q = "urlencoded_serializer ps"
  have a: "CHR ''?'' \<notin> set ?a" "CHR ''#'' \<notin> set ?a"
    using assms(1) by (simp_all add: plain_prefix_def)
  have q: "CHR ''#'' \<notin> set (?a @ CHR ''?'' # ?q)"
    using a(2) urlencoded_serializer_no_hash[of ps] by simp
  have "takeWhile (\<lambda>c. c \<noteq> CHR ''#'') (href u) = ?a @ CHR ''?'' # ?q"
  proof (cases "fragment u")
    case None
    then have "href u = ?a @ CHR ''?'' # ?q" by (simp add: href_def assms(2))
    with q show ?thesis by auto
  next
    case (Some f)
    then have eq: "href u = (?a @ CHR ''?'' # ?q) @ CHR ''#'' # f"
      by (simp add: href_def assms(2))
    show ?thesis unfolding eq by (rule takeWhile_until) (rule q)
  qed
  moreover have "dropWhile (\<lambda>c. c \<noteq> CHR ''?'') (?a @ CHR ''?'' # ?q) = CHR ''?'' # ?q"
    by (rule dropWhile_until) (rule a(1))
  ultimately have "query_params (href u) = urlencoded_parser (drop 1 (CHR ''?'' # ?q))"
    by (simp only: query_params_def)
  then show ?thesis by (simp add: urlencoded_parser_serializer)
qed

section \<open>The report URL\<close>

subsection \<open>Objects and the parameters appended from them\<close>


lemma update_fresh: "k \<notin> fst ` set al \<Longrightarrow> AList.update k v al = al @ [(k, v)]"
  by (induction al) auto

lemma spread_fold_distinct:
  "distinct (map fst target) \<Longrightarrow>
   distinct (map fst (foldl (\<lambda>target (k, v). AList.update k v target) target source))"
  by (induction source arbitrary: target) (auto simp: distinct_update)

lemma object_spread_distinct: "distinct (map fst (object_spread source))"
  by (simp add: object_spread_def spread_fold_distinct)

lemma spread_fold_fresh:
  "distinct (map fst (target @ source)) \<Longrightarrow>
   foldl (\<lambda>target (k, v). AList.update k v target) target source = target @ source"
proof (induction source arbitrary: target)
  case Nil
  show ?case by simp
next
  case (Cons p source)
  obtain k v where p: "p = (k, v)" by (cases p)
  from Cons.prems have "k \<notin> fst ` set target" by (auto simp: p)
  then have "AList.update k v target = target @ [(k, v)]" by (rule update_fresh)
  moreover from Cons.prems have "distinct (map fst ((target @ [(k, v)]) @ source))"
    by (simp add: p)
  ultimately show ?case using Cons.IH[of "target @ [(k, v)]"] by (simp add: p)
qed

lemma object_spread_object: "distinct (map fst source) \<Longrightarrow> object_spread source = source"
  using spread_fold_fresh[of "[]" source] by (simp add: object_spread_def)

lemma append_all_keys:
  "foldl (\<lambda>u k. searchParams_append u k (f k)) u ks =
     (if ks = [] then u
      else u\<lparr>searchParams := searchParams u @ map (\<lambda>k. (k, f k)) ks,
             query := Some (urlencoded_serializer (searchParams u @ map (\<lambda>k. (k, f k)) ks))\<rparr>)"
proof (induction ks arbitrary: u)
  case Nil
  show ?case by simp
next
  case (Cons k ks)
  have "urlencoded_serializer (searchParams u @ [(k, f k)]) \<noteq> []"
    by (rule urlencoded_serializer_nonempty) simp
  then have step: "searchParams_append u k (f k) =
      u\<lparr>searchParams := searchParams u @ [(k, f k)],
        query := Some (urlencoded_serializer (searchParams u @ [(k, f k)]))\<rparr>"
    by (simp add: searchParams_append_def Let_def)
  show ?case by (simp add: Cons.IH step)
qed

lemma property_get_own:
  "distinct (map fst obj) \<Longrightarrow> map (\<lambda>k. (k, property_get obj k)) (Object_keys obj) = obj"
proof -
  assume d: "distinct (map fst obj)"
  have "\<And>p. p \<in> set obj \<Longrightarrow> (fst p, property_get obj (fst p)) = p"
  proof -
    fix p assume "p \<in> set obj"
    then have "(fst p, snd p) \<in> set obj" by simp
    then have "map_of obj (fst p) = Some (snd p)" by (simp only: map_of_eq_Some_iff[OF d])
    then show "(fst p, property_get obj (fst p)) = p" by (simp add: property_get_def)
  qed
  then have "map (\<lambda>p. (fst p, property_get obj (fst p))) obj = map (\<lambda>p. p) obj"
    by (intro map_cong) simp_all
  then show ?thesis by (simp add: Object_keys_def comp_def)
qed

lemma bugzilla_href:
  "bugzillaPrefiledReportURL p =
     ''https://bugzilla.redhat.com/enter_bug.cgi?''
       @ urlencoded_serializer (AList.update ''component'' ''anaconda'' (object_spread p))"
proof -
  let ?qd = "AList.update ''component'' ''anaconda'' (object_spread p)"
  have d: "distinct (map fst ?qd)" by (simp add: distinct_update object_spread_distinct)
  have ne: "Object_keys ?qd \<noteq> []" by (simp add: Object_keys_def)
  show ?thesis
    unfolding bugzillaPrefiledReportURL_def Let_def append_all_keys
    using ne property_get_own[OF d]
    by (simp add: href_def set_pathname_def new_URL_baseURL_def baseURL_def)
qed


lemma query_params_after:
  assumes "CHR ''?'' \<notin> set a" and "CHR ''#'' \<notin> set a"
  shows "query_params (a @ CHR ''?'' # urlencoded_serializer ps) = ps"
  using query_params_href[of "\<lparr>prefix = a, pathname = [], searchParams = ps,
      query = Some (urlencoded_serializer ps), fragment = None\<rparr>" ps] assms
  by (simp add: plain_prefix_def href_def)

lemma bugzilla_query_params:
  "query_params (bugzillaPrefiledReportURL p)
     = AList.update ''component'' ''anaconda'' (object_spread p)"
proof -
  have "query_params (''https://bugzilla.redhat.com/enter_bug.cgi'' @ CHR ''?'' #
          urlencoded_serializer (AList.update ''component'' ''anaconda'' (object_spread p)))
        = AList.update ''component'' ''anaconda'' (object_spread p)"
    by (rule query_params_after) simp_all
  then show ?thesis by (simp add: bugzilla_href)
qed

lemma update_filter_key:
  "distinct (map fst al) \<Longrightarrow> filter (\<lambda>(k', v'). k' = k) (AList.update k v al) = [(k, v)]"
proof (induction al)
  case Nil
  show ?case by simp
next
  case (Cons p al)
  show ?case
  proof (cases "fst p = k")
    case True
    with Cons.prems have "k \<notin> fst ` set al" by auto
    then have "filter (\<lambda>(k', v'). k' = k) al = []"
      by (force simp: filter_empty_conv)
    with True show ?thesis by simp
  next
    case False
    with Cons show ?thesis by (simp add: case_prod_beta)
  qed
qed

lemma update_as_map:
  "distinct (map fst al) \<Longrightarrow>
   AList.update k v al =
     map (\<lambda>(k', v'). (k', if k' = k then v else v')) al
       @ (if k \<in> fst ` set al then [] else [(k, v)])"
proof (induction al)
  case Nil
  show ?case by simp
next
  case (Cons p al)
  obtain k' v' where p: "p = (k', v')" by (cases p)
  show ?case
  proof (cases "k' = k")
    case True
    with Cons.prems have "k \<notin> fst ` set al" by (auto simp: p)
    then have "map (\<lambda>(k', v'). (k', if k' = k then v else v')) al = map (\<lambda>x. x) al"
      by (intro map_cong) (auto simp: image_iff)
    with True show ?thesis by (simp add: p)
  next
    case False
    with Cons show ?thesis by (simp add: p)
  qed
qed


lemma searchParams_append_eq:
  "searchParams_append u n v =
     u\<lparr>searchParams := searchParams u @ [(n, v)],
       query := Some (urlencoded_serializer (searchParams u @ [(n, v)]))\<rparr>"
proof -
  have "urlencoded_serializer (searchParams u @ [(n, v)]) \<noteq> []"
    by (rule urlencoded_serializer_nonempty) simp
  then show ?thesis by (simp add: searchParams_append_def Let_def)
qed

lemma query_params_two_appends:
  assumes "plain_prefix u"
  shows "query_params (href (searchParams_append (searchParams_append u n1 v1) n2 v2))
           = searchParams u @ [(n1, v1), (n2, v2)]"
proof -
  let ?u = "searchParams_append (searchParams_append u n1 v1) n2 v2"
  have "plain_prefix ?u"
    using assms by (simp add: searchParams_append_eq plain_prefix_def)
  moreover have "query ?u = Some (urlencoded_serializer (searchParams u @ [(n1, v1), (n2, v2)]))"
    by (simp add: searchParams_append_eq)
  ultimately show ?thesis by (rule query_params_href)
qed


subsection \<open>Claims about bugzillaPrefiledReportURL\<close>

text \<open>
  C9. For every input mapping, also one that has a \<^verbatim>\<open>component\<close> key of its own, the
  returned URL has exactly one \<^verbatim>\<open>component\<close> query parameter, and its value is
  \<^verbatim>\<open>anaconda\<close>: the constant written after the spread overrides the caller's value.
\<close>

theorem bugzillaPrefiledReportURL_one_component:
  "filter (\<lambda>(k, v). k = ''component'') (query_params (bugzillaPrefiledReportURL productQueryData))
     = [(''component'', ''anaconda'')]"
  by (simp only: bugzilla_query_params update_filter_key[OF object_spread_distinct])

text \<open>
  C4, as amended. For every mapping (an object: each key once) the function returns
  \<^verbatim>\<open>https://bugzilla.redhat.com/enter_bug.cgi?\<close> followed by the serialised
  parameters, and these are, in the key order of the mapping: every key of the mapping
  other than \<^verbatim>\<open>component\<close> with its mapped value, and \<^verbatim>\<open>component\<close> with the
  value \<^verbatim>\<open>anaconda\<close>, where the mapping has that key or else last.
\<close>

theorem bugzillaPrefiledReportURL_params:
  assumes "distinct (map fst productQueryData)"
  shows "(let params = map (\<lambda>(k, v). (k, if k = ''component'' then ''anaconda'' else v)) productQueryData
                         @ (if ''component'' \<in> fst ` set productQueryData then []
                            else [(''component'', ''anaconda'')])
          in bugzillaPrefiledReportURL productQueryData
               = ''https://bugzilla.redhat.com/enter_bug.cgi?'' @ urlencoded_serializer params
             \<and> query_params (bugzillaPrefiledReportURL productQueryData) = params)"
proof -
  have "query_params (bugzillaPrefiledReportURL productQueryData)
          = AList.update ''component'' ''anaconda'' productQueryData"
    by (simp only: bugzilla_query_params object_spread_object[OF assms])
  moreover have "bugzillaPrefiledReportURL productQueryData
          = ''https://bugzilla.redhat.com/enter_bug.cgi?''
              @ urlencoded_serializer (AList.update ''component'' ''anaconda'' productQueryData)"
    by (simp only: bugzilla_href object_spread_object[OF assms])
  ultimately show ?thesis
    unfolding Let_def update_as_map[OF assms, of "''component''" "''anaconda''", symmetric]
    by (intro conjI)
qed

text \<open>
  The amended C4 at the mapping \<^verbatim>\<open>{product: "Fedora", version: "rawhide"}\<close>.
\<close>

theorem bugzillaPrefiledReportURL_params_witness:
  "bugzillaPrefiledReportURL [(''product'', ''Fedora''), (''version'', ''rawhide'')]
     = ''https://bugzilla.redhat.com/enter_bug.cgi?''
         @ urlencoded_serializer
             [(''product'', ''Fedora''), (''version'', ''rawhide''), (''component'', ''anaconda'')]
   \<and> query_params (bugzillaPrefiledReportURL [(''product'', ''Fedora''), (''version'', ''rawhide'')])
     = [(''product'', ''Fedora''), (''version'', ''rawhide''), (''component'', ''anaconda'')]"
proof -
  let ?p = "[(''product'', ''Fedora''), (''version'', ''rawhide'')]"
  have d: "distinct (map fst ?p)" by simp
  have params: "map (\<lambda>(k, v). (k, if k = ''component'' then ''anaconda'' else v)) ?p
          @ (if ''component'' \<in> fst ` set ?p then [] else [(''component'', ''anaconda'')])
        = [(''product'', ''Fedora''), (''version'', ''rawhide''), (''component'', ''anaconda'')]"
    by simp
  from bugzillaPrefiledReportURL_params[OF d] show ?thesis unfolding Let_def params .
qed

text \<open>
  C4 as stated fails at \<^verbatim>\<open>{product: "Fedora", component: "kernel"}\<close>: the key
  \<^verbatim>\<open>component\<close> does not appear with its mapped value \<^verbatim>\<open>kernel\<close>.
\<close>

theorem bugzillaPrefiledReportURL_component_counterexample:
  "bugzillaPrefiledReportURL [(''product'', ''Fedora''), (''component'', ''kernel'')]
     = ''https://bugzilla.redhat.com/enter_bug.cgi?product=Fedora&component=anaconda''
   \<and> (''component'', ''kernel'')
       \<notin> set (query_params
                (bugzillaPrefiledReportURL [(''product'', ''Fedora''), (''component'', ''kernel'')]))"
proof -
  let ?p = "[(''product'', ''Fedora''), (''component'', ''kernel'')]"
  have q: "query_params (bugzillaPrefiledReportURL ?p)
        = [(''product'', ''Fedora''), (''component'', ''anaconda'')]"
    by (simp add: bugzilla_query_params object_spread_def)
  have h: "bugzillaPrefiledReportURL ?p
        = ''https://bugzilla.redhat.com/enter_bug.cgi?product=Fedora&component=anaconda''"
    by (simp add: bugzilla_href object_spread_def urlencode_def percent_encode_byte_def
        urlencoded_plain_def)
  show ?thesis unfolding q by (simp add: h)
qed

subsection \<open>Claims about addExceptionDataToReportURL\<close>

text \<open>
  C1, as amended. Where the constructor accepts the URL, the function returns a URL
  whose query parameters are those of the given URL followed by \<^verbatim>\<open>short_desc\<close> and
  \<^verbatim>\<open>comment\<close>. The \<^verbatim>\<open>short_desc\<close> parameter is \<^verbatim>\<open>"WebUI: " + N + ": " + M\<close> when
  the exception has no context or its context is the empty string, and
  \<^verbatim>\<open>"WebUI: " + C + " " + N + ": " + M\<close> when it carries a context \<open>C\<close> that is not
  empty. Name and message are any strings, the empty one included.
\<close>

theorem addExceptionDataToReportURL_short_desc:
  fixes e :: "'a exception_scheme"
  assumes "URL_new url = Some u" and "plain_prefix u"
  shows "(contextData_context e = None \<or> contextData_context e = Some [] \<longrightarrow>
            (\<exists>r cm. addExceptionDataToReportURL URL_new gettext url e = Inr r \<and>
               query_params r = searchParams u
                 @ [(''short_desc'', ''WebUI: '' @ name e @ '': '' @ message e), (''comment'', cm)]))
       \<and> (\<forall>C. contextData_context e = Some C \<and> C \<noteq> [] \<longrightarrow>
            (\<exists>r cm. addExceptionDataToReportURL URL_new gettext url e = Inr r \<and>
               query_params r = searchParams u
                 @ [(''short_desc'', ''WebUI: '' @ C @ '' '' @ name e @ '': '' @ message e),
                    (''comment'', cm)]))"
  using assms(1) query_params_two_appends[OF assms(2)]
  by (auto simp: addExceptionDataToReportURL_def Let_def truthy_def)

text \<open>
  The amended C1 at the URL \<^verbatim>\<open>https://bugzilla.redhat.com\<close>: for the exception
  \<^verbatim>\<open>{name: "TypeError", message: "x is undefined"}\<close> without context, and for an
  exception with empty name and message and the context \<^verbatim>\<open>Storage\<close>.
\<close>

theorem addExceptionDataToReportURL_short_desc_witness:
  "(\<exists>r cm. addExceptionDataToReportURL [baseURL \<mapsto> new_URL_baseURL] id baseURL
              \<lparr>name = ''TypeError'', message = ''x is undefined'', contextData = None\<rparr> = Inr r
           \<and> query_params r
               = [(''short_desc'', ''WebUI: TypeError: x is undefined''), (''comment'', cm)])
   \<and> (\<exists>r cm. addExceptionDataToReportURL [baseURL \<mapsto> new_URL_baseURL] id baseURL
              \<lparr>name = [], message = [], contextData = Some \<lparr>context = Some ''Storage''\<rparr>\<rparr> = Inr r
           \<and> query_params r = [(''short_desc'', ''WebUI: Storage : ''), (''comment'', cm)])"
proof -
  have p: "[baseURL \<mapsto> new_URL_baseURL] baseURL = Some new_URL_baseURL" by simp
  have w: "plain_prefix new_URL_baseURL"
    by (simp add: plain_prefix_def new_URL_baseURL_def baseURL_def)
  have s: "searchParams new_URL_baseURL = []" by (simp add: new_URL_baseURL_def)
  note th = addExceptionDataToReportURL_short_desc[where URL_new = "[baseURL \<mapsto> new_URL_baseURL]"
      and url = baseURL and gettext = id, OF p w]
  from th[where e = "\<lparr>name = ''TypeError'', message = ''x is undefined'', contextData = None\<rparr>"]
  have "\<exists>r cm. addExceptionDataToReportURL [baseURL \<mapsto> new_URL_baseURL] id baseURL
              \<lparr>name = ''TypeError'', message = ''x is undefined'', contextData = None\<rparr> = Inr r
           \<and> query_params r
               = [(''short_desc'', ''WebUI: TypeError: x is undefined''), (''comment'', cm)]"
    by (simp add: contextData_context_def s)
  moreover
  from th[where e = "\<lparr>name = [], message = [], contextData = Some \<lparr>context = Some ''Storage''\<rparr>\<rparr>"]
  have "\<exists>r cm. addExceptionDataToReportURL [baseURL \<mapsto> new_URL_baseURL] id baseURL
              \<lparr>name = [], message = [], contextData = Some \<lparr>context = Some ''Storage''\<rparr>\<rparr> = Inr r
           \<and> query_params r = [(''short_desc'', ''WebUI: Storage : ''), (''comment'', cm)]"
    by (simp add: contextData_context_def s)
  ultimately show ?thesis by (rule conjI)
qed

text \<open>
  C1 as stated fails for an exception that carries the empty string as its context: the
  description is \<^verbatim>\<open>WebUI: TypeError: x is undefined\<close>, with one space after
  \<^verbatim>\<open>WebUI:\<close>, not \<^verbatim>\<open>"WebUI: " + "" + " " + N + ": " + M\<close>, which has two.
\<close>

theorem addExceptionDataToReportURL_empty_context_counterexample:
  "addExceptionDataToReportURL [baseURL \<mapsto> new_URL_baseURL] id baseURL
      \<lparr>name = ''TypeError'', message = ''x is undefined'',
       contextData = Some \<lparr>context = Some []\<rparr>\<rparr>
     = Inr ''https://bugzilla.redhat.com/?short_desc=WebUI%3A+TypeError%3A+x+is+undefined&comment=Installer+WebUI+Critical+Error%3A%0ATypeError%3A+x+is+undefined%0A%0APlease+attach+the+file+%2Ftmp%2Fwebui.log+to+the+issue.''
   \<and> query_params ''https://bugzilla.redhat.com/?short_desc=WebUI%3A+TypeError%3A+x+is+undefined&comment=Installer+WebUI+Critical+Error%3A%0ATypeError%3A+x+is+undefined%0A%0APlease+attach+the+file+%2Ftmp%2Fwebui.log+to+the+issue.''
     = [(''short_desc'', ''WebUI: TypeError: x is undefined''),
        (''comment'', ''Installer WebUI Critical Error:\<newline>TypeError: x is undefined\<newline>\<newline>Please attach the file /tmp/webui.log to the issue.'')]
   \<and> ''WebUI: TypeError: x is undefined''
       \<noteq> ''WebUI: '' @ [] @ '' '' @ ''TypeError'' @ '': '' @ ''x is undefined''"
proof -
  have "addExceptionDataToReportURL [baseURL \<mapsto> new_URL_baseURL] id baseURL
      \<lparr>name = ''TypeError'', message = ''x is undefined'',
       contextData = Some \<lparr>context = Some []\<rparr>\<rparr>
     = Inr ''https://bugzilla.redhat.com/?short_desc=WebUI%3A+TypeError%3A+x+is+undefined&comment=Installer+WebUI+Critical+Error%3A%0ATypeError%3A+x+is+undefined%0A%0APlease+attach+the+file+%2Ftmp%2Fwebui.log+to+the+issue.''"
    by (simp add: addExceptionDataToReportURL_def Let_def truthy_def contextData_context_def
        searchParams_append_eq new_URL_baseURL_def baseURL_def href_def
        urlencode_def percent_encode_byte_def urlencoded_plain_def hex_digit_def)
  moreover have "query_params ''https://bugzilla.redhat.com/?short_desc=WebUI%3A+TypeError%3A+x+is+undefined&comment=Installer+WebUI+Critical+Error%3A%0ATypeError%3A+x+is+undefined%0A%0APlease+attach+the+file+%2Ftmp%2Fwebui.log+to+the+issue.''
     = [(''short_desc'', ''WebUI: TypeError: x is undefined''),
        (''comment'', ''Installer WebUI Critical Error:\<newline>TypeError: x is undefined\<newline>\<newline>Please attach the file /tmp/webui.log to the issue.'')]"
    by (simp add: query_params_def urlencoded_parser_def parse_pair_def urldecode_def
        plus_to_space_def is_hex_digit_def hex_value_def char_of_def bit_Suc_0_iff)
  moreover have "''WebUI: TypeError: x is undefined''
       \<noteq> ''WebUI: '' @ [] @ '' '' @ ''TypeError'' @ '': '' @ ''x is undefined''"
    by simp
  ultimately show ?thesis by (intro conjI)
qed

section \<open>The dialog\<close>

subsection \<open>The states a run reaches\<close>

lemma run_snoc: "run c fs (evs @ [ev]) = step c (run c fs evs) ev"
  by (simp add: run_def)

lemma replace_settled_fields:
  "preparingReport (replace_settled c outcome path content s) = False"
  "replacing (replace_settled c outcome path content s) = replacing s"
  "logContent (replace_settled c outcome path content s) = logContent s"
  "spawned (replace_settled c outcome path content s) = spawned s"
  "journal_pending (replace_settled c outcome path content s) = journal_pending s"
  "exits (replace_settled c outcome path content s) = exits s"
  by (simp_all add: replace_settled_def Let_def split: settled.splits option.splits)

lemma replace_settled_opened:
  "opened (replace_settled c outcome path content s)
     = (if outcome = Fulfilled \<or> always_returns c = Derived
        then opened s @ [(reportURL c, ''_blank'', ''noopener,noreferer'')]
        else opened s)"
  by (cases outcome; cases "always_returns c")
     (simp_all add: replace_settled_def Let_def always_then_def split: option.splits)

lemma replace_settled_files:
  "files (replace_settled c Fulfilled path (Some l) s) = (files s)(path \<mapsto> l)"
  "files (replace_settled c Rejected path content s) = files s"
  "p \<noteq> path \<Longrightarrow> files (replace_settled c outcome path content s) p = files s p"
  by (simp_all add: replace_settled_def Let_def split: settled.splits option.splits)

lemma writes_invariant_mount: "writes_invariant fs (mount fs)"
  by (simp add: writes_invariant_def mount_def)

lemma writes_invariant_step:
  assumes "writes_invariant fs s"
  shows "writes_invariant fs (step c s ev)"
proof (cases ev)
  case (ReplaceSettled outcome)
  show ?thesis
  proof (cases "replacing s")
    case Nil
    with assms ReplaceSettled show ?thesis by simp
  next
    case (Cons w rest)
    obtain path content where w: "w = (path, content)" by (cases w)
    from assms Cons w have path: "path = ''/tmp/webui.log''"
      and rest: "\<forall>w \<in> set rest. fst w = ''/tmp/webui.log''"
      and other: "\<forall>p. p \<noteq> ''/tmp/webui.log'' \<longrightarrow> files s p = fs p"
      by (auto simp: writes_invariant_def)
    from ReplaceSettled Cons w
    have st: "step c s ev = replace_settled c outcome path content (s\<lparr>replacing := rest\<rparr>)"
      by simp
    show ?thesis
      unfolding st writes_invariant_def using rest other
      by (simp add: replace_settled_fields replace_settled_files(3) path)
  qed
qed (insert assms, auto simp: writes_invariant_def render_def openBZIssue_def)

lemma writes_invariant_run: "writes_invariant fs (run c fs evs)"
proof (induction evs rule: rev_induct)
  case Nil
  show ?case by (simp add: run_def writes_invariant_mount)
next
  case (snoc ev evs)
  then show ?case by (simp only: run_snoc writes_invariant_step)
qed

lemma honoured_append:
  "honoured c s (xs @ ys) = (honoured c s xs \<and> honoured c (foldl (step c) s xs) ys)"
  by (induction xs arbitrary: s) auto

lemma enabled_clicks_snoc:
  "enabled_clicks c fs (evs @ [ev]) = (enabled_clicks c fs evs \<and> delivered c (run c fs evs) ev)"
  by (simp add: enabled_clicks_def honoured_append run_def)

lemma enabled_invariant_mount: "enabled_invariant (mount fs)"
  by (simp add: enabled_invariant_def mount_def)

lemma enabled_invariant_step:
  assumes "enabled_invariant s" and "delivered c s ev"
  shows "enabled_invariant (step c s ev)"
proof (cases ev)
  case (ReplaceSettled outcome)
  show ?thesis
  proof (cases "replacing s")
    case Nil
    with assms ReplaceSettled show ?thesis by simp
  next
    case (Cons w rest)
    obtain path content where w: "w = (path, content)" by (cases w)
    from assms(1) Cons have rest: "rest = []" by (simp add: enabled_invariant_def)
    from ReplaceSettled Cons w rest
    have st: "step c s ev = replace_settled c outcome path content (s\<lparr>replacing := []\<rparr>)"
      by simp
    show ?thesis unfolding st enabled_invariant_def by (simp add: replace_settled_fields)
  qed
qed (insert assms, auto simp: enabled_invariant_def render_def openBZIssue_def)

lemma enabled_invariant_run: "enabled_clicks c fs evs \<Longrightarrow> enabled_invariant (run c fs evs)"
proof (induction evs rule: rev_induct)
  case Nil
  show ?case by (simp add: run_def enabled_invariant_mount)
next
  case (snoc ev evs)
  then show ?case by (simp add: enabled_clicks_snoc run_snoc enabled_invariant_step)
qed

lemma settle_head:
  assumes "replacing (run c fs evs) \<noteq> []"
  shows "\<exists>content rest. replacing (run c fs evs) = (''/tmp/webui.log'', content) # rest
           \<and> (\<forall>outcome. run c fs (evs @ [ReplaceSettled outcome])
               = replace_settled c outcome ''/tmp/webui.log'' content
                   ((run c fs evs)\<lparr>replacing := rest\<rparr>))"
proof -
  let ?s = "run c fs evs"
  from assms obtain w rest where wr: "replacing ?s = w # rest" by (cases "replacing ?s") auto
  obtain path content where w: "w = (path, content)" by (cases w)
  from writes_invariant_run[of fs c evs] wr w have "path = ''/tmp/webui.log''"
    by (simp add: writes_invariant_def)
  with wr w show ?thesis by (simp add: run_snoc)
qed

lemma sample_run:
  "run \<lparr>reportLinkURL = Some baseURL, reportURL = baseURL, always_returns = a\<rparr> Map.empty
     [JournalFulfilled ''line1'', ReportClick]
   = (mount Map.empty)\<lparr>journal_pending := False, logContent := Some ''line1'',
        preparingReport := True, replacing := [(''/tmp/webui.log'', Some ''line1'')]\<rparr>"
  by (simp add: run_def mount_def report_rendered_def truthy_def baseURL_def openBZIssue_def)

lemma sample_enabled_clicks:
  "enabled_clicks \<lparr>reportLinkURL = Some baseURL, reportURL = baseURL, always_returns = a\<rparr>
     Map.empty [JournalFulfilled ''line1'', ReportClick]"
  by (simp add: enabled_clicks_def mount_def render_def report_rendered_def truthy_def
      baseURL_def)

subsection \<open>Claims about the report control and the report action\<close>

text \<open>
  C3, as amended. In every state the dialog reaches, \<^verbatim>\<open>isDisabled\<close> of the report
  control is true exactly when \<^verbatim>\<open>logContent\<close> is undefined or \<^verbatim>\<open>preparingReport\<close>
  is true. In a run where the click handler ran only on the enabled control,
  \<^verbatim>\<open>preparingReport\<close> is true exactly while a write is in flight and at most one
  write is in flight; such a run has no report click while a write is in flight.
\<close>

theorem report_control_disabled:
  "report_isDisabled (render (run c fs evs))
     = (logContent (run c fs evs) = None \<or> preparingReport (run c fs evs))
   \<and> (enabled_clicks c fs evs \<longrightarrow>
        preparingReport (run c fs evs) = (replacing (run c fs evs) \<noteq> [])
        \<and> length (replacing (run c fs evs)) \<le> 1)
   \<and> (enabled_clicks c fs (evs @ [ReportClick]) \<longrightarrow> replacing (run c fs evs) = [])"
proof -
  have "report_isDisabled (render (run c fs evs))
     = (logContent (run c fs evs) = None \<or> preparingReport (run c fs evs))"
    by (simp add: render_def)
  moreover have "enabled_clicks c fs evs \<longrightarrow>
        preparingReport (run c fs evs) = (replacing (run c fs evs) \<noteq> [])
        \<and> length (replacing (run c fs evs)) \<le> 1"
    using enabled_invariant_run[of c fs evs] by (auto simp: enabled_invariant_def)
  moreover have "enabled_clicks c fs (evs @ [ReportClick]) \<longrightarrow> replacing (run c fs evs) = []"
    using enabled_invariant_run[of c fs evs]
    by (auto simp: enabled_clicks_snoc enabled_invariant_def render_def)
  ultimately show ?thesis by (intro conjI)
qed

text \<open>
  The amended C3 after the journal arrived: a first click is one on the enabled control,
  with no write in flight. After it a report is being prepared, the control is
  disabled, and a second click is not one on the enabled control.
\<close>

theorem report_control_disabled_witness:
  "enabled_clicks \<lparr>reportLinkURL = Some baseURL, reportURL = baseURL, always_returns = Receiver\<rparr>
      Map.empty ([JournalFulfilled ''line1''] @ [ReportClick])
   \<and> replacing (run \<lparr>reportLinkURL = Some baseURL, reportURL = baseURL, always_returns = Receiver\<rparr>
               Map.empty [JournalFulfilled ''line1'']) = []
   \<and> preparingReport (run \<lparr>reportLinkURL = Some baseURL, reportURL = baseURL, always_returns = Receiver\<rparr>
               Map.empty [JournalFulfilled ''line1'', ReportClick])
   \<and> report_isDisabled (render (run \<lparr>reportLinkURL = Some baseURL, reportURL = baseURL, always_returns = Receiver\<rparr>
               Map.empty [JournalFulfilled ''line1'', ReportClick]))
   \<and> \<not> enabled_clicks \<lparr>reportLinkURL = Some baseURL, reportURL = baseURL, always_returns = Receiver\<rparr>
      Map.empty ([JournalFulfilled ''line1'', ReportClick] @ [ReportClick])"
proof -
  let ?c = "\<lparr>reportLinkURL = Some baseURL, reportURL = baseURL, always_returns = Receiver\<rparr>"
  let ?evs = "[JournalFulfilled ''line1'', ReportClick]"
  have e: "enabled_clicks ?c Map.empty ?evs" by (rule sample_enabled_clicks)
  then have e1: "enabled_clicks ?c Map.empty ([JournalFulfilled ''line1''] @ [ReportClick])"
    by simp
  have r: "replacing (run ?c Map.empty ?evs) \<noteq> []" by (simp add: sample_run)
  from report_control_disabled[of ?c Map.empty "[JournalFulfilled ''line1'']"] e1
  have "replacing (run ?c Map.empty [JournalFulfilled ''line1'']) = []" by blast
  moreover from report_control_disabled[of ?c Map.empty ?evs] e r
  have "preparingReport (run ?c Map.empty ?evs)
     \<and> report_isDisabled (render (run ?c Map.empty ?evs))
     \<and> \<not> enabled_clicks ?c Map.empty (?evs @ [ReportClick])"
    by blast
  ultimately show ?thesis using e1 by blast
qed

text \<open>
  C3 as stated fails for the handler as it is written, which tests nothing: run a second
  time while the write is in flight it starts a second write, and when the first has
  settled \<^verbatim>\<open>preparingReport\<close> is false and the control enabled while a write is in
  flight.
\<close>

theorem report_control_second_click_counterexample:
  "replacing (run \<lparr>reportLinkURL = Some baseURL, reportURL = baseURL, always_returns = Receiver\<rparr>
               Map.empty [JournalFulfilled ''line1'', ReportClick, ReportClick])
     = [(''/tmp/webui.log'', Some ''line1''), (''/tmp/webui.log'', Some ''line1'')]
   \<and> replacing (run \<lparr>reportLinkURL = Some baseURL, reportURL = baseURL, always_returns = Receiver\<rparr>
               Map.empty [JournalFulfilled ''line1'', ReportClick, ReportClick, ReplaceSettled Fulfilled])
     = [(''/tmp/webui.log'', Some ''line1'')]
   \<and> \<not> preparingReport (run \<lparr>reportLinkURL = Some baseURL, reportURL = baseURL, always_returns = Receiver\<rparr>
               Map.empty [JournalFulfilled ''line1'', ReportClick, ReportClick, ReplaceSettled Fulfilled])
   \<and> \<not> report_isDisabled (render (run \<lparr>reportLinkURL = Some baseURL, reportURL = baseURL, always_returns = Receiver\<rparr>
               Map.empty [JournalFulfilled ''line1'', ReportClick, ReportClick, ReplaceSettled Fulfilled]))"
  by (simp add: run_def mount_def render_def report_rendered_def truthy_def baseURL_def
        openBZIssue_def replace_settled_def always_then_def)

text \<open>
  C5. Where the report control is rendered, a run of the report action starts one more
  write, of the current \<^verbatim>\<open>logContent\<close> to \<^verbatim>\<open>/tmp/webui.log\<close>, and changes no
  file by itself. When the oldest write in flight is fulfilled its text is the whole
  content of \<^verbatim>\<open>/tmp/webui.log\<close>, and a rejected write leaves the files as they
  were; so with no other write in flight, the report action followed by the fulfilment
  of its write makes the current \<^verbatim>\<open>logContent\<close> the content of the file. In no run
  is another path written: every write in flight goes to \<^verbatim>\<open>/tmp/webui.log\<close> and
  every other file keeps its content.
\<close>

theorem report_writes_log:
  assumes "report_rendered c"
  shows "replacing (run c fs (evs @ [ReportClick]))
           = replacing (run c fs evs) @ [(''/tmp/webui.log'', logContent (run c fs evs))]
       \<and> files (run c fs (evs @ [ReportClick])) = files (run c fs evs)
       \<and> (\<forall>body rest. replacing (run c fs evs) = (''/tmp/webui.log'', Some body) # rest \<longrightarrow>
            files (run c fs (evs @ [ReplaceSettled Fulfilled]))
              = (files (run c fs evs))(''/tmp/webui.log'' \<mapsto> body))
       \<and> files (run c fs (evs @ [ReplaceSettled Rejected])) = files (run c fs evs)
       \<and> (\<forall>body. replacing (run c fs evs) = [] \<and> logContent (run c fs evs) = Some body \<longrightarrow>
            files (run c fs (evs @ [ReportClick, ReplaceSettled Fulfilled]))
              = (files (run c fs evs))(''/tmp/webui.log'' \<mapsto> body))
       \<and> (\<forall>evs' path. path \<noteq> ''/tmp/webui.log'' \<longrightarrow> files (run c fs evs') path = fs path)
       \<and> (\<forall>evs'. \<forall>w \<in> set (replacing (run c fs evs')). fst w = ''/tmp/webui.log'')"
proof -
  let ?s = "run c fs evs"
  have click: "run c fs (evs @ [ReportClick]) = openBZIssue ?s"
    using assms by (simp add: run_snoc)
  have a: "replacing (run c fs (evs @ [ReportClick]))
           = replacing ?s @ [(''/tmp/webui.log'', logContent ?s)]"
    by (simp add: click openBZIssue_def)
  have b: "files (run c fs (evs @ [ReportClick])) = files ?s"
    by (simp add: click openBZIssue_def)
  have d: "\<forall>body rest. replacing ?s = (''/tmp/webui.log'', Some body) # rest \<longrightarrow>
            files (run c fs (evs @ [ReplaceSettled Fulfilled]))
              = (files ?s)(''/tmp/webui.log'' \<mapsto> body)"
    by (simp add: run_snoc replace_settled_files)
  have e: "files (run c fs (evs @ [ReplaceSettled Rejected])) = files ?s"
    by (cases "replacing ?s") (auto simp: run_snoc replace_settled_files)
  have two: "run c fs (evs @ [ReportClick, ReplaceSettled Fulfilled])
      = step c (openBZIssue ?s) (ReplaceSettled Fulfilled)"
    using assms by (simp add: run_def)
  have f: "\<forall>body. replacing ?s = [] \<and> logContent ?s = Some body \<longrightarrow>
            files (run c fs (evs @ [ReportClick, ReplaceSettled Fulfilled]))
              = (files ?s)(''/tmp/webui.log'' \<mapsto> body)"
    unfolding two by (simp add: openBZIssue_def replace_settled_files)
  have g: "\<forall>evs' path. path \<noteq> ''/tmp/webui.log'' \<longrightarrow> files (run c fs evs') path = fs path"
    using writes_invariant_run[of fs c] by (simp add: writes_invariant_def)
  have h: "\<forall>evs'. \<forall>w \<in> set (replacing (run c fs evs')). fst w = ''/tmp/webui.log''"
    using writes_invariant_run[of fs c] by (simp add: writes_invariant_def)
  from a b d e f g h show ?thesis by (intro conjI)
qed

text \<open>
  C5 for a log the user has edited: the edited text replaces the former content of
  \<^verbatim>\<open>/tmp/webui.log\<close>, both read as click and fulfilment from a state with no write
  in flight and as the fulfilment of the write that the click has started; the write in
  flight goes to \<^verbatim>\<open>/tmp/webui.log\<close> and another file is as it was.
\<close>

theorem report_writes_log_witness:
  "files (run \<lparr>reportLinkURL = Some baseURL, reportURL = baseURL, always_returns = Receiver\<rparr>
            (Map.empty(''/tmp/webui.log'' \<mapsto> ''old'', ''/etc/hostname'' \<mapsto> ''host''))
            [JournalFulfilled ''secret line2'', TextAreaChange ''line2'',
             ReportClick, ReplaceSettled Fulfilled])
     = Map.empty(''/tmp/webui.log'' \<mapsto> ''line2'', ''/etc/hostname'' \<mapsto> ''host'')
   \<and> files (run \<lparr>reportLinkURL = Some baseURL, reportURL = baseURL, always_returns = Receiver\<rparr>
            (Map.empty(''/tmp/webui.log'' \<mapsto> ''old'', ''/etc/hostname'' \<mapsto> ''host''))
            ([JournalFulfilled ''secret line2'', TextAreaChange ''line2'', ReportClick]
               @ [ReplaceSettled Fulfilled]))
     = Map.empty(''/tmp/webui.log'' \<mapsto> ''line2'', ''/etc/hostname'' \<mapsto> ''host'')
   \<and> fst (''/tmp/webui.log'', Some ''line2'') = ''/tmp/webui.log''
   \<and> files (run \<lparr>reportLinkURL = Some baseURL, reportURL = baseURL, always_returns = Receiver\<rparr>
            (Map.empty(''/tmp/webui.log'' \<mapsto> ''old'', ''/etc/hostname'' \<mapsto> ''host''))
            [JournalFulfilled ''secret line2'', TextAreaChange ''line2'',
             ReportClick, ReplaceSettled Fulfilled]) ''/etc/hostname''
     = Some ''host''"
proof -
  let ?c = "\<lparr>reportLinkURL = Some baseURL, reportURL = baseURL, always_returns = Receiver\<rparr>"
  let ?fs = "Map.empty(''/tmp/webui.log'' \<mapsto> ''old'', ''/etc/hostname'' \<mapsto> ''host'')"
  let ?evs = "[JournalFulfilled ''secret line2'', TextAreaChange ''line2'']"
  let ?all = "[JournalFulfilled ''secret line2'', TextAreaChange ''line2'',
             ReportClick, ReplaceSettled Fulfilled]"
  have e: "run ?c ?fs ?evs = (mount ?fs)\<lparr>journal_pending := False, logContent := Some ''line2''\<rparr>"
    by (simp add: run_def mount_def render_def)
  have h1: "report_rendered ?c" by (simp add: report_rendered_def truthy_def baseURL_def)
  have h2: "replacing (run ?c ?fs ?evs) = [] \<and> logContent (run ?c ?fs ?evs) = Some ''line2''"
    by (simp add: e mount_def)
  have f: "files (run ?c ?fs ?evs) = ?fs" by (simp add: e mount_def)
  have u: "?fs(''/tmp/webui.log'' \<mapsto> ''line2'')
         = Map.empty(''/tmp/webui.log'' \<mapsto> ''line2'', ''/etc/hostname'' \<mapsto> ''host'')"
    by (rule ext) simp
  note th = report_writes_log[OF h1, of ?fs]
  note starts = th[THEN conjunct1]
  note click_files = th[THEN conjunct2, THEN conjunct1]
  note fulfilled = th[THEN conjunct2, THEN conjunct2, THEN conjunct1, rule_format]
  note click_fulfilled = th[THEN conjunct2, THEN conjunct2, THEN conjunct2, THEN conjunct2,
      THEN conjunct1, rule_format]
  note others = th[THEN conjunct2, THEN conjunct2, THEN conjunct2, THEN conjunct2,
      THEN conjunct2, THEN conjunct1, rule_format]
  note paths = th[THEN conjunct2, THEN conjunct2, THEN conjunct2, THEN conjunct2,
      THEN conjunct2, THEN conjunct2, rule_format]
  have "files (run ?c ?fs (?evs @ [ReportClick, ReplaceSettled Fulfilled]))
       = (files (run ?c ?fs ?evs))(''/tmp/webui.log'' \<mapsto> ''line2'')"
    by (rule click_fulfilled) (rule h2)
  then have a: "files (run ?c ?fs ?all)
       = Map.empty(''/tmp/webui.log'' \<mapsto> ''line2'', ''/etc/hostname'' \<mapsto> ''host'')"
    by (simp add: f u)
  have q: "replacing (run ?c ?fs (?evs @ [ReportClick]))
         = [(''/tmp/webui.log'', Some ''line2'')]"
    unfolding starts[of ?evs] using h2 by simp
  have k: "files (run ?c ?fs [JournalFulfilled ''secret line2'', TextAreaChange ''line2'',
        ReportClick]) = ?fs"
    using click_files[of ?evs] f by simp
  have "files (run ?c ?fs ((?evs @ [ReportClick]) @ [ReplaceSettled Fulfilled]))
       = (files (run ?c ?fs (?evs @ [ReportClick])))(''/tmp/webui.log'' \<mapsto> ''line2'')"
    by (rule fulfilled) (rule q)
  then have b: "files (run ?c ?fs ([JournalFulfilled ''secret line2'', TextAreaChange ''line2'',
        ReportClick] @ [ReplaceSettled Fulfilled]))
       = Map.empty(''/tmp/webui.log'' \<mapsto> ''line2'', ''/etc/hostname'' \<mapsto> ''host'')"
    using k by (simp add: u)
  have "(''/tmp/webui.log'', Some ''line2'') \<in> set (replacing (run ?c ?fs (?evs @ [ReportClick])))"
    unfolding q by simp
  then have d: "fst (''/tmp/webui.log'', Some ''line2'') = ''/tmp/webui.log''"
    by (rule paths)
  have "files (run ?c ?fs ?all) ''/etc/hostname'' = ?fs ''/etc/hostname''"
    by (rule others) simp
  then have g: "files (run ?c ?fs ?all) ''/etc/hostname'' = Some ''host''" by simp
  from a b d g show ?thesis by (intro conjI)
qed

text \<open>
  C6, as amended. When a write in flight settles, fulfilled or rejected,
  \<^verbatim>\<open>preparingReport\<close> is false afterwards and the report control is disabled
  exactly if \<^verbatim>\<open>logContent\<close> is undefined. In a run where the click handler ran only
  on the enabled control, \<^verbatim>\<open>preparingReport\<close> was true before, the control is enabled
  again and no write is in flight. The dialog is rendered the same after either
  outcome, and its state is the same but for the files and the opened windows; the
  opened windows are the same too if \<^verbatim>\<open>always\<close> returns a new promise.
\<close>

theorem write_settled_ready:
  assumes "replacing (run c fs evs) \<noteq> []"
  shows "\<not> preparingReport (run c fs (evs @ [ReplaceSettled outcome]))
       \<and> report_isDisabled (render (run c fs (evs @ [ReplaceSettled outcome])))
           = (logContent (run c fs evs) = None)
       \<and> (enabled_clicks c fs evs \<longrightarrow>
            preparingReport (run c fs evs)
            \<and> \<not> report_isDisabled (render (run c fs (evs @ [ReplaceSettled outcome])))
            \<and> replacing (run c fs (evs @ [ReplaceSettled outcome])) = [])
       \<and> render (run c fs (evs @ [ReplaceSettled Fulfilled]))
           = render (run c fs (evs @ [ReplaceSettled Rejected]))
       \<and> (run c fs (evs @ [ReplaceSettled Fulfilled]))\<lparr>files := f, opened := ws\<rparr>
           = (run c fs (evs @ [ReplaceSettled Rejected]))\<lparr>files := f, opened := ws\<rparr>
       \<and> (always_returns c = Derived \<longrightarrow>
            opened (run c fs (evs @ [ReplaceSettled Fulfilled]))
              = opened (run c fs (evs @ [ReplaceSettled Rejected])))"
proof -
  let ?s = "run c fs evs"
  from settle_head[OF assms] obtain content rest where
    q: "replacing ?s = (''/tmp/webui.log'', content) # rest" and
    st: "\<And>oc. run c fs (evs @ [ReplaceSettled oc])
       = replace_settled c oc ''/tmp/webui.log'' content (?s\<lparr>replacing := rest\<rparr>)"
    by blast
  have a: "\<not> preparingReport (run c fs (evs @ [ReplaceSettled outcome]))"
    by (simp add: st replace_settled_fields)
  have b: "report_isDisabled (render (run c fs (evs @ [ReplaceSettled outcome])))
           = (logContent ?s = None)"
    by (simp add: st replace_settled_fields render_def)
  have d: "enabled_clicks c fs evs \<longrightarrow>
            preparingReport ?s
            \<and> \<not> report_isDisabled (render (run c fs (evs @ [ReplaceSettled outcome])))
            \<and> replacing (run c fs (evs @ [ReplaceSettled outcome])) = []"
  proof
    assume "enabled_clicks c fs evs"
    from enabled_invariant_run[OF this] q
    have "preparingReport ?s" "logContent ?s \<noteq> None" "rest = []"
      by (auto simp: enabled_invariant_def)
    then show "preparingReport ?s
            \<and> \<not> report_isDisabled (render (run c fs (evs @ [ReplaceSettled outcome])))
            \<and> replacing (run c fs (evs @ [ReplaceSettled outcome])) = []"
      by (simp add: b) (simp add: st replace_settled_fields)
  qed
  have e: "render (run c fs (evs @ [ReplaceSettled Fulfilled]))
           = render (run c fs (evs @ [ReplaceSettled Rejected]))"
    by (simp add: st replace_settled_fields render_def)
  have g: "(run c fs (evs @ [ReplaceSettled Fulfilled]))\<lparr>files := f, opened := ws\<rparr>
           = (run c fs (evs @ [ReplaceSettled Rejected]))\<lparr>files := f, opened := ws\<rparr>"
    by (simp add: st replace_settled_def Let_def split: option.splits)
  have h: "always_returns c = Derived \<longrightarrow>
            opened (run c fs (evs @ [ReplaceSettled Fulfilled]))
              = opened (run c fs (evs @ [ReplaceSettled Rejected]))"
    by (simp add: st replace_settled_opened)
  from a b d e g h show ?thesis by (intro conjI)
qed

text \<open>
  The amended C6 for a rejected write in a run with one click, on the enabled control;
  and under an \<^verbatim>\<open>always\<close> that returns a new promise the same window is opened after
  either outcome.
\<close>

theorem write_settled_ready_witness:
  "\<not> preparingReport
       (run \<lparr>reportLinkURL = Some baseURL, reportURL = baseURL, always_returns = Receiver\<rparr>
          Map.empty [JournalFulfilled ''line1'', ReportClick, ReplaceSettled Rejected])
   \<and> \<not> report_isDisabled (render
       (run \<lparr>reportLinkURL = Some baseURL, reportURL = baseURL, always_returns = Receiver\<rparr>
          Map.empty [JournalFulfilled ''line1'', ReportClick, ReplaceSettled Rejected]))
   \<and> replacing
       (run \<lparr>reportLinkURL = Some baseURL, reportURL = baseURL, always_returns = Receiver\<rparr>
          Map.empty [JournalFulfilled ''line1'', ReportClick, ReplaceSettled Rejected]) = []
   \<and> opened
       (run \<lparr>reportLinkURL = Some baseURL, reportURL = baseURL, always_returns = Derived\<rparr>
          Map.empty [JournalFulfilled ''line1'', ReportClick, ReplaceSettled Fulfilled])
     = opened
       (run \<lparr>reportLinkURL = Some baseURL, reportURL = baseURL, always_returns = Derived\<rparr>
          Map.empty [JournalFulfilled ''line1'', ReportClick, ReplaceSettled Rejected])"
proof -
  let ?c = "\<lparr>reportLinkURL = Some baseURL, reportURL = baseURL, always_returns = Receiver\<rparr>"
  let ?d = "\<lparr>reportLinkURL = Some baseURL, reportURL = baseURL, always_returns = Derived\<rparr>"
  let ?evs = "[JournalFulfilled ''line1'', ReportClick]"
  have h: "\<And>a. replacing (run \<lparr>reportLinkURL = Some baseURL, reportURL = baseURL,
             always_returns = a\<rparr> Map.empty ?evs) \<noteq> []"
    by (simp add: sample_run)
  have e: "enabled_clicks ?c Map.empty ?evs" by (rule sample_enabled_clicks)
  have d: "always_returns ?d = Derived" by simp
  let ?after = "run ?c Map.empty (?evs @ [ReplaceSettled Rejected])"
  from write_settled_ready[OF h[of Receiver], where outcome = Rejected and f = Map.empty and ws = "[]"] e
  have "\<not> preparingReport ?after \<and> \<not> report_isDisabled (render ?after) \<and> replacing ?after = []"
    by blast
  moreover
  from write_settled_ready[OF h[of Derived], where outcome = Rejected and f = Map.empty and ws = "[]"] d
  have "opened (run ?d Map.empty (?evs @ [ReplaceSettled Fulfilled]))
      = opened (run ?d Map.empty (?evs @ [ReplaceSettled Rejected]))"
    by blast
  ultimately show ?thesis by simp
qed

text \<open>
  C6 as stated fails in two ways. With an \<^verbatim>\<open>always\<close> that returns the promise it was
  called on, the outcome of the write decides whether the report page is opened, so it
  does reach the user. And when the handler ran before the journal had arrived, the
  control is still disabled after the write has settled.
\<close>

theorem write_settled_surfaced_counterexample:
  "opened (run \<lparr>reportLinkURL = Some baseURL, reportURL = baseURL, always_returns = Receiver\<rparr>
             Map.empty [JournalFulfilled ''line1'', ReportClick, ReplaceSettled Fulfilled])
     = [(baseURL, ''_blank'', ''noopener,noreferer'')]
   \<and> opened (run \<lparr>reportLinkURL = Some baseURL, reportURL = baseURL, always_returns = Receiver\<rparr>
             Map.empty [JournalFulfilled ''line1'', ReportClick, ReplaceSettled Rejected]) = []
   \<and> replacing (run \<lparr>reportLinkURL = Some baseURL, reportURL = baseURL, always_returns = Receiver\<rparr>
             Map.empty [ReportClick]) = [(''/tmp/webui.log'', None)]
   \<and> report_isDisabled (render (run \<lparr>reportLinkURL = Some baseURL, reportURL = baseURL, always_returns = Receiver\<rparr>
             Map.empty [ReportClick, ReplaceSettled Rejected]))"
  by (simp add: run_def mount_def render_def report_rendered_def truthy_def baseURL_def
        openBZIssue_def replace_settled_def always_then_def)

text \<open>
  C2, as amended. When the write in flight settles, \<^verbatim>\<open>window.open\<close> is called with
  the report URL if the write was fulfilled, or if \<^verbatim>\<open>always\<close> returns a new promise
  that is fulfilled after its callback; after a rejected write, with an \<^verbatim>\<open>always\<close>
  that returns the promise it was called on, nothing is opened.
\<close>

theorem report_opened_when_then_runs:
  assumes "replacing (run c fs evs) \<noteq> []"
  shows "opened (run c fs (evs @ [ReplaceSettled outcome]))
           = (if outcome = Fulfilled \<or> always_returns c = Derived
              then opened (run c fs evs) @ [(reportURL c, ''_blank'', ''noopener,noreferer'')]
              else opened (run c fs evs))"
proof -
  from settle_head[OF assms] obtain content rest where
    "run c fs (evs @ [ReplaceSettled outcome])
       = replace_settled c outcome ''/tmp/webui.log'' content ((run c fs evs)\<lparr>replacing := rest\<rparr>)"
    by blast
  then show ?thesis by (simp only: replace_settled_opened) simp
qed

text \<open>
  The amended C2 for a fulfilled write, and for a rejected write under an \<^verbatim>\<open>always\<close>
  that returns a new promise.
\<close>

theorem report_opened_when_then_runs_witness:
  "opened (run \<lparr>reportLinkURL = Some baseURL, reportURL = baseURL, always_returns = Receiver\<rparr>
             Map.empty [JournalFulfilled ''line1'', ReportClick, ReplaceSettled Fulfilled])
     = [(baseURL, ''_blank'', ''noopener,noreferer'')]
   \<and> opened (run \<lparr>reportLinkURL = Some baseURL, reportURL = baseURL, always_returns = Derived\<rparr>
             Map.empty [JournalFulfilled ''line1'', ReportClick, ReplaceSettled Rejected])
     = [(baseURL, ''_blank'', ''noopener,noreferer'')]"
proof -
  let ?evs = "[JournalFulfilled ''line1'', ReportClick]"
  have h: "\<And>a. replacing (run \<lparr>reportLinkURL = Some baseURL, reportURL = baseURL,
             always_returns = a\<rparr> Map.empty ?evs) \<noteq> []"
    by (simp add: sample_run)
  from report_opened_when_then_runs[OF h[of Receiver], of Fulfilled]
    report_opened_when_then_runs[OF h[of Derived], of Rejected]
  show ?thesis by (simp add: sample_run mount_def)
qed

text \<open>
  C2 as stated fails where \<^verbatim>\<open>always\<close> returns the promise it was called on, as
  jQuery's and cockpit's do: the write of the log is rejected and no window is opened.
\<close>

theorem report_not_opened_counterexample:
  "replacing (run \<lparr>reportLinkURL = Some baseURL, reportURL = baseURL, always_returns = Receiver\<rparr>
               Map.empty [JournalFulfilled ''line1'', ReportClick]) = [(''/tmp/webui.log'', Some ''line1'')]
   \<and> opened (run \<lparr>reportLinkURL = Some baseURL, reportURL = baseURL, always_returns = Receiver\<rparr>
               Map.empty [JournalFulfilled ''line1'', ReportClick, ReplaceSettled Rejected]) = []"
  by (simp add: run_def mount_def render_def report_rendered_def truthy_def baseURL_def
        openBZIssue_def replace_settled_def always_then_def)

text \<open>
  C7. The report URL is opened with the target \<^verbatim>\<open>_blank\<close> and the features
  \<^verbatim>\<open>noopener,noreferer\<close>. The second name is not \<^verbatim>\<open>noreferrer\<close>: the features as
  written ask for no opener, and do not ask to withhold the referrer.
\<close>

theorem window_open_features:
  "opened (run \<lparr>reportLinkURL = Some baseURL, reportURL = baseURL, always_returns = Receiver\<rparr>
               Map.empty [JournalFulfilled ''line1'', ReportClick, ReplaceSettled Fulfilled])
     = [(baseURL, ''_blank'', ''noopener,noreferer'')]
   \<and> window_features ''noopener,noreferer'' = [''noopener'', ''noreferer'']
   \<and> ''noreferrer'' \<notin> set (window_features ''noopener,noreferer'')"
  by (simp add: run_def mount_def render_def report_rendered_def truthy_def baseURL_def
        openBZIssue_def replace_settled_def always_then_def window_features_def)

text \<open>
  C8. An edit of the text area changes nothing but \<^verbatim>\<open>logContent\<close> (which becomes
  the new text when the text area is enabled). No event makes the dialog spawn a
  process again, and the writes in flight change only by a report click, which adds
  one, and by a write that settles.
\<close>

theorem edit_only_sets_logContent:
  "step c s (TextAreaChange v) = s\<lparr>logContent := logContent (step c s (TextAreaChange v))\<rparr>
   \<and> (\<not> textarea_isDisabled (render s) \<longrightarrow> logContent (step c s (TextAreaChange v)) = Some v)
   \<and> spawned (step c s ev) = spawned s
   \<and> (replacing (step c s ev) = replacing s
        \<or> ev = ReportClick \<and> replacing (step c s ev) = replacing s @ [(''/tmp/webui.log'', logContent s)]
        \<or> (\<exists>outcome. ev = ReplaceSettled outcome) \<and> replacing (step c s ev) = tl (replacing s))"
  by (cases ev)
     (auto simp: openBZIssue_def replace_settled_def Let_def
           split: list.splits settled.splits option.splits prod.splits)

text \<open>C8 for an edit of the log that the journal delivered.\<close>

theorem edit_only_sets_logContent_witness:
  "\<not> textarea_isDisabled (render ((mount Map.empty)\<lparr>journal_pending := False, logContent := Some ''a secret''\<rparr>))
   \<and> step \<lparr>reportLinkURL = Some baseURL, reportURL = baseURL, always_returns = Receiver\<rparr>
       ((mount Map.empty)\<lparr>journal_pending := False, logContent := Some ''a secret''\<rparr>)
       (TextAreaChange ''redacted'')
     = (mount Map.empty)\<lparr>journal_pending := False, logContent := Some ''redacted''\<rparr>"
proof -
  let ?c = "\<lparr>reportLinkURL = Some baseURL, reportURL = baseURL, always_returns = Receiver\<rparr>"
  let ?s = "(mount Map.empty)\<lparr>journal_pending := False, logContent := Some ''a secret''\<rparr>"
  have h: "\<not> textarea_isDisabled (render ?s)" by (simp add: render_def mount_def)
  from edit_only_sets_logContent[of ?c ?s "''redacted''" ExitClick] h
  have "step ?c ?s (TextAreaChange ''redacted'') = ?s\<lparr>logContent := Some ''redacted''\<rparr>"
    by metis
  with h show ?thesis by simp
qed

section \<open>The error handler with context\<close>

lemma calls_more: "js_state.more \<sigma>' = js_state.more \<sigma> \<Longrightarrow> calls \<sigma>' = calls \<sigma>"
  by (cases \<sigma>', cases \<sigma>) simp

text \<open>
  C10. The function that \<^verbatim>\<open>errorHandlerWithContext\<close> returns calls the handler once,
  with the reference it was given, in a state where that exception's
  \<^verbatim>\<open>contextData\<close> is the given value, whatever it was before, every other property
  of the exception is as before, and so is every other object and the rest of the state.
\<close>

theorem errorHandlerWithContext_sets_contextData:
  fixes handler :: "nat \<Rightarrow> ('a, 'b) js_state_scheme \<Rightarrow> ('a, 'b) js_state_scheme"
  shows "\<exists>\<sigma>'. errorHandlerWithContext contextData' handler exception \<sigma> = handler exception \<sigma>'
           \<and> contextData (heap \<sigma>' exception) = contextData'
           \<and> name (heap \<sigma>' exception) = name (heap \<sigma> exception)
           \<and> message (heap \<sigma>' exception) = message (heap \<sigma> exception)
           \<and> exception.more (heap \<sigma>' exception) = exception.more (heap \<sigma> exception)
           \<and> (\<forall>r. r \<noteq> exception \<longrightarrow> heap \<sigma>' r = heap \<sigma> r)
           \<and> js_state.more \<sigma>' = js_state.more \<sigma>"
  by (rule exI[of _ "\<sigma>\<lparr>heap := (heap \<sigma>)(exception := (heap \<sigma> exception)\<lparr>contextData := contextData'\<rparr>)\<rparr>"])
     (simp add: errorHandlerWithContext_def)

text \<open>
  C10 with a handler that records its calls: it is called once, with the exception it
  was given, and the exception's former context is overwritten.
\<close>

theorem errorHandlerWithContext_sets_contextData_witness:
  "calls (errorHandlerWithContext (Some \<lparr>context = Some ''Storage''\<rparr>) record_call 0
            \<lparr>heap = (\<lambda>r. \<lparr>name = ''TypeError'', message = ''x is undefined'',
                           contextData = Some \<lparr>context = Some ''Network''\<rparr>\<rparr>),
             calls = []\<rparr>) = [0]
   \<and> heap (errorHandlerWithContext (Some \<lparr>context = Some ''Storage''\<rparr>) record_call 0
            \<lparr>heap = (\<lambda>r. \<lparr>name = ''TypeError'', message = ''x is undefined'',
                           contextData = Some \<lparr>context = Some ''Network''\<rparr>\<rparr>),
             calls = []\<rparr>) 0
       = \<lparr>name = ''TypeError'', message = ''x is undefined'',
          contextData = Some \<lparr>context = Some ''Storage''\<rparr>\<rparr>"
proof -
  let ?\<sigma> = "\<lparr>heap = (\<lambda>r. \<lparr>name = ''TypeError'', message = ''x is undefined'',
                           contextData = Some \<lparr>context = Some ''Network''\<rparr>\<rparr>),
             calls = []\<rparr>"
  let ?cd = "Some \<lparr>context = Some ''Storage''\<rparr>"
  from errorHandlerWithContext_sets_contextData[of ?cd record_call 0 ?\<sigma>]
  obtain \<sigma>' where s: "errorHandlerWithContext ?cd record_call 0 ?\<sigma> = record_call 0 \<sigma>'"
    and f: "contextData (heap \<sigma>' 0) = ?cd" "name (heap \<sigma>' 0) = name (heap ?\<sigma> 0)"
      "message (heap \<sigma>' 0) = message (heap ?\<sigma> 0)"
      "exception.more (heap \<sigma>' 0) = exception.more (heap ?\<sigma> 0)"
    and m: "js_state.more \<sigma>' = js_state.more ?\<sigma>"
    by blast
  from m have "calls \<sigma>' = []" by (simp add: calls_more[of \<sigma>' ?\<sigma>])
  then have "calls (record_call 0 \<sigma>') = [0]" by (simp add: record_call_def)
  moreover have "heap (record_call 0 \<sigma>') 0 = heap \<sigma>' 0" by (simp add: record_call_def)
  moreover from f have "heap \<sigma>' 0 = \<lparr>name = ''TypeError'', message = ''x is undefined'',
          contextData = Some \<lparr>context = Some ''Storage''\<rparr>\<rparr>"
    by (cases "heap \<sigma>' 0") simp
  ultimately show ?thesis by (simp only: s)
qed

end
